theory Spec2Isabelle
  imports Complex_Main
begin

section \<open>Data model of the Crop module\<close>

text \<open>
  The module works on numpy arrays. An image array is either two-dimensional
  (\<open>shape = (H, W)\<close>) or three-dimensional (\<open>shape = (H, W, C)\<close>, a colour image).
  An array is modelled by its shape and its contents: \<open>px a i j c\<close> is the entry
  at row \<open>i\<close>, column \<open>j\<close>, channel \<open>c\<close>; a two-dimensional array keeps its
  entries at channel index \<open>0\<close>. Entries outside the shape do not exist in numpy
  and are never read by the definitions below.
\<close>

record 'a ndarray =
  height :: nat
  width :: nat
  channels :: "nat option"
  px :: "nat \<Rightarrow> nat \<Rightarrow> nat \<Rightarrow> 'a"

text \<open>\<open>a.shape\<close>\<close>

definition shape_of :: "'a ndarray \<Rightarrow> nat list" where
  "shape_of a = (case channels a of None \<Rightarrow> [height a, width a]
                                 | Some c \<Rightarrow> [height a, width a, c])"

text \<open>\<open>a.shape[:2]\<close>\<close>

definition shape2 :: "'a ndarray \<Rightarrow> nat list" where
  "shape2 a = take 2 (shape_of a)"

text \<open>Number of entries stored for one pixel position.\<close>

definition nchan :: "'a ndarray \<Rightarrow> nat" where
  "nchan a = (case channels a of None \<Rightarrow> 1 | Some c \<Rightarrow> c)"

text \<open>All entries of an array in C order, as \<open>a.flatten()\<close> lists them.\<close>

definition entries :: "'a ndarray \<Rightarrow> 'a list" where
  "entries a = concat (map (\<lambda>i. concat (map (\<lambda>j. map (\<lambda>c. px a i j c) [0..<nchan a])
                                            [0..<width a]))
                           [0..<height a])"

text \<open>\<open>np.sum(m)\<close> of a boolean array: the number of \<open>True\<close> entries.\<close>

definition np_sum :: "bool ndarray \<Rightarrow> nat" where
  "np_sum m = length (filter (\<lambda>b. b) (entries m))"

text \<open>\<open>np.ones(shape, bool)\<close>, with the shape taken from another array.\<close>

definition np_ones :: "'a ndarray \<Rightarrow> bool ndarray" where
  "np_ones a = \<lparr>height = height a, width = width a, channels = channels a,
               px = (\<lambda>i j c. True)\<rparr>"

text \<open>\<open>a > 0\<close>, elementwise.\<close>

definition gt_zero :: "('a::linordered_idom) ndarray \<Rightarrow> bool ndarray" where
  "gt_zero a = \<lparr>height = height a, width = width a, channels = channels a,
               px = (\<lambda>i j c. 0 < px a i j c)\<rparr>"

subsection \<open>Slices\<close>

text \<open>
  Python normalises the bound \<open>k\<close> of a slice \<open>[:k]\<close> or \<open>[k:]\<close> over an axis of
  length \<open>n\<close>: a negative bound counts from the far end, and the result is
  clipped to \<open>0..n\<close>.
\<close>

definition slice_index :: "nat \<Rightarrow> int \<Rightarrow> nat" where
  "slice_index n k = (if k < 0 then nat (k + int n) else min (nat k) n)"

text \<open>\<open>a[:k, :] = v\<close>, \<open>a[k:, :] = v\<close>, \<open>a[:, :k] = v\<close> and \<open>a[:, k:] = v\<close>.\<close>

definition assign_rows_to :: "int \<Rightarrow> 'a \<Rightarrow> 'a ndarray \<Rightarrow> 'a ndarray" where
  "assign_rows_to k v a =
     a\<lparr>px := (\<lambda>i j c. if i < slice_index (height a) k then v else px a i j c)\<rparr>"

definition assign_rows_from :: "int \<Rightarrow> 'a \<Rightarrow> 'a ndarray \<Rightarrow> 'a ndarray" where
  "assign_rows_from k v a =
     a\<lparr>px := (\<lambda>i j c. if slice_index (height a) k \<le> i then v else px a i j c)\<rparr>"

definition assign_cols_to :: "int \<Rightarrow> 'a \<Rightarrow> 'a ndarray \<Rightarrow> 'a ndarray" where
  "assign_cols_to k v a =
     a\<lparr>px := (\<lambda>i j c. if j < slice_index (width a) k then v else px a i j c)\<rparr>"

definition assign_cols_from :: "int \<Rightarrow> 'a \<Rightarrow> 'a ndarray \<Rightarrow> 'a ndarray" where
  "assign_cols_from k v a =
     a\<lparr>px := (\<lambda>i j c. if slice_index (width a) k \<le> j then v else px a i j c)\<rparr>"

subsection \<open>Settings\<close>

datatype shape_choice = SH_ELLIPSE | SH_RECTANGLE | SH_IMAGE | SH_OBJECTS | SH_CROPPING

datatype crop_method_choice = CM_COORDINATES | CM_MOUSE

datatype individual_or_once_choice = IO_INDIVIDUALLY | IO_FIRST

datatype remove_choice = RM_NO | RM_EDGES | RM_ALL

text \<open>
  \<open>cps.IntegerOrUnboundedRange\<close>: each end is an integer or unbounded
  (\<open>unbounded_min\<close>, \<open>unbounded_max\<close>); \<open>None\<close> is the unbounded end.
\<close>

record limits =
  range_min :: "int option"
  range_max :: "int option"

text \<open>
  Both ranges of the module are created with \<open>minval=0\<close>: the values the
  setting admits are not negative.
\<close>

definition admitted :: "limits \<Rightarrow> bool" where
  "admitted r = ((case range_min r of None \<Rightarrow> True | Some m \<Rightarrow> 0 \<le> m) \<and>
                 (case range_max r of None \<Rightarrow> True | Some m \<Rightarrow> 0 \<le> m))"

record settings =
  image_name :: string
  cropped_image_name :: string
  shape :: shape_choice
  crop_method :: crop_method_choice
  individual_or_once :: individual_or_once_choice
  horizontal_limits :: limits
  vertical_limits :: limits
  ellipse_center :: "int \<times> int"
  ellipse_x_radius :: int
  ellipse_y_radius :: int
  image_mask_source :: string
  cropping_mask_source :: string
  objects_source :: string
  use_plate_fix :: bool
  remove_rows_and_columns :: remove_choice

subsection \<open>Errors\<close>

text \<open>
  The exceptions the module can raise: \<open>IndexError\<close> (an index into an empty
  \<open>argwhere\<close> result, a boolean index of the wrong shape), \<open>ValueError\<close>
  (\<open>math.sqrt\<close> of a negative number, \<open>max\<close> of an empty array),
  \<open>AttributeError\<close> (\<open>None.shape\<close>), \<open>NotImplementedError\<close> (mouse cropping),
  and \<open>LookupFailed\<close> for a name the workspace does not know or a failure
  inside \<open>cellprofiler.cpimage\<close>.
\<close>

datatype error = IndexError | ValueError | AttributeError | NotImplementedError | LookupFailed

section \<open>Rectangle cropping\<close>

text \<open>
  \<open>Crop.get_rectangle_cropping\<close>: an all-true array of the shape of the pixel
  data, with the four half planes outside the bounds set to \<open>False\<close>.
\<close>

definition get_rectangle_cropping :: "settings \<Rightarrow> 'a ndarray \<Rightarrow> bool ndarray" where
  "get_rectangle_cropping s pixel_data =
     (let cropping = np_ones pixel_data;
          cropping = (case range_min (horizontal_limits s) of
                        None \<Rightarrow> cropping | Some m \<Rightarrow> assign_cols_to m False cropping);
          cropping = (case range_max (horizontal_limits s) of
                        None \<Rightarrow> cropping | Some m \<Rightarrow> assign_cols_from m False cropping);
          cropping = (case range_min (vertical_limits s) of
                        None \<Rightarrow> cropping | Some m \<Rightarrow> assign_rows_to m False cropping);
          cropping = (case range_max (vertical_limits s) of
                        None \<Rightarrow> cropping | Some m \<Rightarrow> assign_rows_from m False cropping)
      in cropping)"

section \<open>The store of pixel arrays\<close>

text \<open>
  Pixel arrays are mutable objects that are passed by reference, and the module
  assigns to them in place. They live in a store, a list of arrays indexed by
  address; \<open>a.copy()\<close> allocates a new address.
\<close>

type_synonym addr = nat

type_synonym 'a heap = "'a ndarray list"

definition alloc :: "'a ndarray \<Rightarrow> 'a heap \<Rightarrow> addr \<times> 'a heap" where
  "alloc a h = (length h, h @ [a])"

definition copy_array :: "addr \<Rightarrow> 'a heap \<Rightarrow> addr \<times> 'a heap" where
  "copy_array p h = alloc (h ! p) h"

text \<open>An assignment in place to the array at address \<open>p\<close>.\<close>

definition modify :: "addr \<Rightarrow> ('a ndarray \<Rightarrow> 'a ndarray) \<Rightarrow> 'a heap \<Rightarrow> 'a heap" where
  "modify p f h = h[p := f (h ! p)]"

section \<open>Plate fixup\<close>

text \<open>
  \<open>pixel_data.sum(axis=1)\<close> and \<open>pixel_data.sum(axis=0)\<close>. For a three-dimensional
  array the sums keep the channel axis; \<open>np.cumsum\<close> then flattens them in C
  order, which is the order of the lists here.
\<close>

definition row_sum :: "('a::linordered_idom) ndarray \<Rightarrow> nat \<Rightarrow> nat \<Rightarrow> 'a" where
  "row_sum a i c = sum_list (map (\<lambda>j. px a i j c) [0..<width a])"

definition col_sum :: "('a::linordered_idom) ndarray \<Rightarrow> nat \<Rightarrow> nat \<Rightarrow> 'a" where
  "col_sum a j c = sum_list (map (\<lambda>i. px a i j c) [0..<height a])"

definition i_histogram :: "('a::linordered_idom) ndarray \<Rightarrow> 'a list" where
  "i_histogram a = concat (map (\<lambda>i. map (row_sum a i) [0..<nchan a]) [0..<height a])"

definition j_histogram :: "('a::linordered_idom) ndarray \<Rightarrow> 'a list" where
  "j_histogram a = concat (map (\<lambda>j. map (col_sum a j) [0..<nchan a]) [0..<width a])"

text \<open>\<open>np.cumsum\<close> of a boolean array: the running count of \<open>True\<close> entries.\<close>

fun cumsum_from :: "nat \<Rightarrow> bool list \<Rightarrow> nat list" where
  "cumsum_from n [] = []"
| "cumsum_from n (b # bs) =
     (let n' = n + (if b then 1 else 0) in n' # cumsum_from n' bs)"

definition np_cumsum :: "bool list \<Rightarrow> nat list" where
  "np_cumsum bs = cumsum_from 0 bs"

text \<open>
  \<open>i_histogram > pixel_data.shape[0]/2\<close> and \<open>j_histogram > pixel_data.shape[1]/2\<close>:
  the rows and the columns that are covered by a majority. The module is
  Python 2 code: \<open>/\<close> between two integers is floor division.
\<close>

definition majority_rows :: "('a::linordered_idom) ndarray \<Rightarrow> bool list" where
  "majority_rows a = map (\<lambda>x. of_nat (height a div 2) < x) (i_histogram a)"

definition majority_cols :: "('a::linordered_idom) ndarray \<Rightarrow> bool list" where
  "majority_cols a = map (\<lambda>x. of_nat (width a div 2) < x) (j_histogram a)"

definition i_cumsum :: "('a::linordered_idom) ndarray \<Rightarrow> nat list" where
  "i_cumsum a = np_cumsum (majority_rows a)"

definition j_cumsum :: "('a::linordered_idom) ndarray \<Rightarrow> nat list" where
  "j_cumsum a = np_cumsum (majority_cols a)"

text \<open>
  In a two-dimensional grid, row \<open>i\<close> (column \<open>j\<close>) is covered by a majority
  when its sum exceeds the threshold.
\<close>

definition majority_row :: "('a::linordered_idom) ndarray \<Rightarrow> nat \<Rightarrow> bool" where
  "majority_row a i = (of_nat (height a div 2) < row_sum a i 0)"

definition majority_col :: "('a::linordered_idom) ndarray \<Rightarrow> nat \<Rightarrow> bool" where
  "majority_col a j = (of_nat (width a div 2) < col_sum a j 0)"

text \<open>
  \<open>k\<close> is the index at which the running count \<open>cs\<close> reaches the value \<open>v\<close>:
  the first index that holds \<open>v\<close>.
\<close>

definition reaches_at :: "nat list \<Rightarrow> nat \<Rightarrow> nat \<Rightarrow> bool" where
  "reaches_at cs v k = (k < length cs \<and> cs ! k = v \<and> list_all (\<lambda>i. cs ! i \<noteq> v) [0..<k])"

text \<open>\<open>np.argwhere\<close> of a one-dimensional boolean array, and \<open>xs[0]\<close>.\<close>

definition argwhere :: "bool list \<Rightarrow> nat list" where
  "argwhere bs = filter (\<lambda>i. bs ! i) [0..<length bs]"

definition first_elem :: "'b list \<Rightarrow> error + 'b" where
  "first_elem xs = (case xs of [] \<Rightarrow> Inl IndexError | x # _ \<Rightarrow> Inr x)"

text \<open>\<open>cs.max()\<close>, which raises on an empty array.\<close>

definition np_max :: "nat list \<Rightarrow> error + nat" where
  "np_max cs = (case cs of [] \<Rightarrow> Inl ValueError | _ # _ \<Rightarrow> Inr (Max (set cs)))"

text \<open>
  The three lines that compute \<open>i_first\<close>, \<open>i_last\<close>, \<open>i_end\<close> from \<open>i_cumsum\<close>,
  and in the same way \<open>j_first\<close>, \<open>j_last\<close>, \<open>j_end\<close> from \<open>j_cumsum\<close>.
\<close>

definition first_last_end :: "nat list \<Rightarrow> error + (nat \<times> nat \<times> nat)" where
  "first_last_end cs =
     (case first_elem (argwhere (map (\<lambda>n. n = 1) cs)) of
        Inl e \<Rightarrow> Inl e
      | Inr k_first \<Rightarrow>
          (case np_max cs of
             Inl e \<Rightarrow> Inl e
           | Inr m \<Rightarrow>
               (case first_elem (argwhere (map (\<lambda>n. n = m) cs)) of
                  Inl e \<Rightarrow> Inl e
                | Inr k_last \<Rightarrow> Inr (k_first, k_last, k_last + 1))))"

text \<open>\<open>max(first, limits.min)\<close> and \<open>min(end, limits.max)\<close> for an end that is bounded.\<close>

definition raise_to :: "int option \<Rightarrow> int \<Rightarrow> int" where
  "raise_to bound k = (case bound of None \<Rightarrow> k | Some m \<Rightarrow> max k m)"

definition lower_to :: "int option \<Rightarrow> int \<Rightarrow> int" where
  "lower_to bound k = (case bound of None \<Rightarrow> k | Some m \<Rightarrow> min k m)"

text \<open>
  The indices \<open>(i_first, i_end, j_first, j_end)\<close> of \<open>Crop.plate_fixup\<close> after
  the supplied limits have been applied.
\<close>

definition plate_fixup_indices ::
  "settings \<Rightarrow> ('a::linordered_idom) ndarray \<Rightarrow> error + (int \<times> int \<times> int \<times> int)" where
  "plate_fixup_indices s a =
     (case first_last_end (i_cumsum a) of
        Inl e \<Rightarrow> Inl e
      | Inr (i_first, i_last, i_end) \<Rightarrow>
          (case first_last_end (j_cumsum a) of
             Inl e \<Rightarrow> Inl e
           | Inr (j_first, j_last, j_end) \<Rightarrow>
               Inr (raise_to (range_min (vertical_limits s)) (int i_first),
                    lower_to (range_max (vertical_limits s)) (int i_end),
                    raise_to (range_min (horizontal_limits s)) (int j_first),
                    lower_to (range_max (horizontal_limits s)) (int j_end))))"

text \<open>The four guarded assignments at the end of \<open>Crop.plate_fixup\<close>.\<close>

definition zero_outside ::
  "int \<times> int \<times> int \<times> int \<Rightarrow> addr \<Rightarrow> ('a::linordered_idom) heap \<Rightarrow> 'a heap" where
  "zero_outside ix p h =
     (case ix of (i_first, i_end, j_first, j_end) \<Rightarrow>
        (let h = (if i_first > 0 then modify p (assign_rows_to i_first 0) h else h);
             h = (if i_end < int (height (h ! p))
                  then modify p (assign_rows_from i_end 0) h else h);
             h = (if j_first > 0 then modify p (assign_cols_to j_first 0) h else h);
             h = (if j_end < int (width (h ! p))
                  then modify p (assign_cols_from j_end 0) h else h)
         in h))"

text \<open>
  \<open>Crop.plate_fixup\<close>: works on a copy of the array at address \<open>pixel_data\<close> and
  returns the address of the copy.
\<close>

definition plate_fixup ::
  "settings \<Rightarrow> addr \<Rightarrow> ('a::linordered_idom) heap \<Rightarrow> error + (addr \<times> 'a heap)" where
  "plate_fixup s pixel_data h =
     (case copy_array pixel_data h of (p, h) \<Rightarrow>
        (case plate_fixup_indices s (h ! p) of
           Inl e \<Rightarrow> Inl e
         | Inr ix \<Rightarrow> Inr (p, zero_outside ix p h)))"

section \<open>Ellipse cropping\<close>

text \<open>
  \<open>Crop.get_ellipse_cropping\<close>. The square roots and the distances are floating
  point numbers in the module; they are exact real numbers here. \<open>math.sqrt\<close>
  raises \<open>ValueError\<close> on a negative argument.
\<close>

definition math_sqrt :: "int \<Rightarrow> error + real" where
  "math_sqrt n = (if n < 0 then Inl ValueError else Inr (sqrt (real_of_int n)))"

text \<open>
  The last four lines of \<open>Crop.get_ellipse_cropping\<close>: the test
  \<open>d1 + d2 <= major_radius * 2\<close> over \<open>np.mgrid[0:y_max, 0:x_max]\<close>.
\<close>

definition focus_distances_test ::
  "nat \<Rightarrow> nat \<Rightarrow> real \<times> real \<Rightarrow> real \<times> real \<Rightarrow> real \<Rightarrow> bool ndarray" where
  "focus_distances_test y_max x_max focus_1 focus_2 major_radius =
     \<lparr>height = y_max, width = x_max, channels = None,
      px = (\<lambda>y x c.
              sqrt ((real x - fst focus_1)\<^sup>2 + (real y - snd focus_1)\<^sup>2) +
              sqrt ((real x - fst focus_2)\<^sup>2 + (real y - snd focus_2)\<^sup>2)
              \<le> major_radius * 2)\<rparr>"

definition get_ellipse_cropping :: "settings \<Rightarrow> 'a ndarray \<Rightarrow> error + bool ndarray" where
  "get_ellipse_cropping s pixel_data =
     (let x_max = width pixel_data;
          y_max = height pixel_data;
          x_center = real_of_int (fst (ellipse_center s));
          y_center = real_of_int (snd (ellipse_center s));
          x_radius = ellipse_x_radius s;
          y_radius = ellipse_y_radius s
      in if x_radius > y_radius then
           (case math_sqrt (x_radius\<^sup>2 - y_radius\<^sup>2) of
              Inl e \<Rightarrow> Inl e
            | Inr dist_x \<Rightarrow>
                Inr (focus_distances_test y_max x_max
                       (x_center - dist_x, y_center - 0) (x_center + dist_x, y_center + 0)
                       (real_of_int x_radius)))
         else
           (case math_sqrt (y_radius\<^sup>2 - x_radius\<^sup>2) of
              Inl e \<Rightarrow> Inl e
            | Inr dist_y \<Rightarrow>
                Inr (focus_distances_test y_max x_max
                       (x_center - 0, y_center - dist_y) (x_center + 0, y_center + dist_y)
                       (real_of_int y_radius))))"

section \<open>One cycle of the module\<close>

text \<open>
  What \<open>Crop.run\<close> reads from the workspace: the number of the image set, the
  images and objects by name, and the pixel size of the preferences. An image
  refers to its pixel data by address.
\<close>

record cp_image =
  pixel_data :: addr
  crop_mask :: "bool ndarray"

record cp_objects =
  segmented :: "int ndarray"

record workspace =
  number :: nat
  get_image :: "string \<rightharpoonup> cp_image"
  get_objects :: "string \<rightharpoonup> cp_objects"
  get_pixel_size :: real

text \<open>
  \<open>cpi.crop_image\<close> belongs to \<open>cellprofiler.cpimage\<close>, which is not among the
  sources; it is a parameter. The module applies it to the pixel data and to
  the cropping itself.
\<close>

record 'a cpimage =
  crop_image :: "'a ndarray \<Rightarrow> bool ndarray \<Rightarrow> bool \<Rightarrow> error + 'a ndarray"
  crop_image_bool :: "bool ndarray \<Rightarrow> bool ndarray \<Rightarrow> bool \<Rightarrow> error + bool ndarray"

text \<open>The fields \<open>__first_cropping\<close> and \<open>__first_crop_mask\<close> of the module.\<close>

record crop_state =
  first_cropping :: "bool ndarray option"
  first_crop_mask :: "bool ndarray option"

text \<open>
  The image that the module adds to the image set: built from masking objects
  when the shape is \<open>Objects\<close>, from a mask and a crop mask otherwise. Both keep
  the original image as parent.
\<close>

datatype output_image =
  ObjectsImage addr "cp_objects option" cp_image
| MaskedImage addr "bool ndarray" cp_image "bool ndarray"

text \<open>
  What one cycle produces: the values of the local variables
  \<open>cropped_pixel_data\<close>, \<open>cropping\<close> and \<open>mask\<close> at the end of the cycle, the output
  image, the two measurements, and whether the size warning was written to
  \<open>stderr\<close>.
\<close>

record outcome =
  res_pixel_data :: addr
  res_cropping :: "bool ndarray"
  res_mask :: "bool ndarray"
  res_image :: output_image
  area_retained_after_cropping :: real
  original_image_area :: real
  size_changed_warning :: bool

text \<open>
  \<open>a[np.logical_not(m)] = 0\<close>: the boolean index has to have the shape of the
  array, or of its first two axes; then every entry (of every channel) at a
  \<open>False\<close> position becomes zero.
\<close>

definition zero_where_not :: "bool ndarray \<Rightarrow> ('a::zero) ndarray \<Rightarrow> error + 'a ndarray" where
  "zero_where_not m a =
     (if height m = height a \<and> width m = width a \<and>
         (channels m = None \<or> channels m = channels a)
      then Inr (a\<lparr>px := (\<lambda>i j c. if px m i j (case channels m of None \<Rightarrow> 0 | Some _ \<Rightarrow> c)
                                 then px a i j c else 0)\<rparr>)
      else Inl IndexError)"

text \<open>
  The branch of \<open>Crop.run\<close> that computes a new cropping, by the shape chosen.
  It yields the cropping, the masking objects, and the store.
\<close>

definition compute_cropping ::
  "settings \<Rightarrow> workspace \<Rightarrow> cp_image \<Rightarrow> ('a::linordered_idom) heap
   \<Rightarrow> error + (bool ndarray \<times> cp_objects option \<times> 'a heap)" where
  "compute_cropping s ws orig_image h =
     (if shape s = SH_CROPPING then
        (case get_image ws (cropping_mask_source s) of
           None \<Rightarrow> Inl LookupFailed
         | Some cropping_image \<Rightarrow> Inr (crop_mask cropping_image, None, h))
      else if shape s = SH_IMAGE then
        (case get_image ws (image_mask_source s) of
           None \<Rightarrow> Inl LookupFailed
         | Some source \<Rightarrow>
             if use_plate_fix s then
               (case plate_fixup s (pixel_data source) h of
                  Inl e \<Rightarrow> Inl e
                | Inr (source_image, h) \<Rightarrow> Inr (gt_zero (h ! source_image), None, h))
             else Inr (gt_zero (h ! pixel_data source), None, h))
      else if shape s = SH_OBJECTS then
        (case get_objects ws (objects_source s) of
           None \<Rightarrow> Inl LookupFailed
         | Some masking_objects \<Rightarrow>
             Inr (gt_zero (segmented masking_objects), Some masking_objects, h))
      else if crop_method s = CM_MOUSE then Inl NotImplementedError
      else if shape s = SH_ELLIPSE then
        (case get_ellipse_cropping s (h ! pixel_data orig_image) of
           Inl e \<Rightarrow> Inl e
         | Inr cropping \<Rightarrow> Inr (cropping, None, h))
      else Inr (get_rectangle_cropping s (h ! pixel_data orig_image), None, h))"

text \<open>
  The branch of \<open>Crop.run\<close> on \<open>remove_rows_and_columns\<close>. It yields the address
  of the cropped pixel data, the mask, and the store. The result of
  \<open>cpi.crop_image\<close> is a new array. (The variable \<open>mask\<close> of the module is
  \<open>mask1\<close> here.)
\<close>

definition crop_pixel_data ::
  "('a::linordered_idom) cpimage \<Rightarrow> remove_choice \<Rightarrow> addr \<Rightarrow> bool ndarray
   \<Rightarrow> bool ndarray option \<Rightarrow> 'a heap \<Rightarrow> error + (addr \<times> bool ndarray \<times> 'a heap)" where
  "crop_pixel_data cpi rm orig cropping mask1 h =
     (if rm = RM_NO then
        (case copy_array orig h of (cropped, h) \<Rightarrow>
           (case zero_where_not cropping (h ! cropped) of
              Inl e \<Rightarrow> Inl e
            | Inr a \<Rightarrow>
                Inr (cropped, (case mask1 of None \<Rightarrow> cropping | Some m \<Rightarrow> m),
                     h[cropped := a])))
      else
        (let internal_cropping = (rm = RM_ALL) in
           (case crop_image cpi (h ! orig) cropping internal_cropping of
              Inl e \<Rightarrow> Inl e
            | Inr a \<Rightarrow>
                (case alloc a h of (cropped, h) \<Rightarrow>
                   (case (case mask1 of
                            None \<Rightarrow> crop_image_bool cpi cropping cropping internal_cropping
                          | Some m \<Rightarrow> Inr m) of
                      Inl e \<Rightarrow> Inl e
                    | Inr m \<Rightarrow>
                        (case zero_where_not m (h ! cropped) of
                           Inl e \<Rightarrow> Inl e
                         | Inr a \<Rightarrow> Inr (cropped, m, h[cropped := a])))))))"

text \<open>
  The test at the head of \<open>Crop.run\<close>: \<open>Inr (Some c)\<close> when the first cropping
  \<open>c\<close> is used again, \<open>Inr None\<close> when the cropping is calculated.
\<close>

definition reused_cropping ::
  "settings \<Rightarrow> workspace \<Rightarrow> crop_state \<Rightarrow> 'a ndarray \<Rightarrow> error + bool ndarray option" where
  "reused_cropping s ws self orig =
     (let recalculate_flag = (individual_or_once s = IO_INDIVIDUALLY \<or> number ws = 0)
      in if \<not> recalculate_flag then
           (case first_cropping self of
              None \<Rightarrow> Inl AttributeError
            | Some c \<Rightarrow> if shape_of c \<noteq> shape2 orig then Inr None else Inr (Some c))
         else Inr None)"

text \<open>
  \<open>Crop.run\<close>: from the module's fields and the store to the new fields, the new
  store and the outcome of the cycle.
\<close>

definition run ::
  "('a::linordered_idom) cpimage \<Rightarrow> settings \<Rightarrow> workspace \<Rightarrow> crop_state \<times> 'a heap
   \<Rightarrow> error + ((crop_state \<times> 'a heap) \<times> outcome)" where
  "run cpi s ws st =
     (case st of (self, h) \<Rightarrow>
      (case get_image ws (image_name s) of
         None \<Rightarrow> Inl LookupFailed
       | Some orig_image \<Rightarrow>
      (let orig = h ! pixel_data orig_image;
           save_flag = (individual_or_once s = IO_FIRST \<and> number ws = 0) in
      (case reused_cropping s ws self orig of
         Inl e \<Rightarrow> Inl e
       | Inr reused \<Rightarrow>
      (case (case reused of
               Some c \<Rightarrow> Inr (c, first_crop_mask self, None, h)
             | None \<Rightarrow>
                 (case compute_cropping s ws orig_image h of
                    Inl e \<Rightarrow> Inl e
                  | Inr (c, masking_objects, h) \<Rightarrow> Inr (c, None, masking_objects, h))) of
         Inl e \<Rightarrow> Inl e
       | Inr (cropping, mask1, masking_objects, h) \<Rightarrow>
      (case crop_pixel_data cpi (remove_rows_and_columns s) (pixel_data orig_image)
              cropping mask1 h of
         Inl e \<Rightarrow> Inl e
       | Inr (cropped, mask1, h) \<Rightarrow>
      (let image =
             (if shape s = SH_OBJECTS
              then ObjectsImage cropped masking_objects orig_image
              else MaskedImage cropped mask1 orig_image cropping);
           self = (if save_flag
                   then self\<lparr>first_cropping := Some cropping, first_crop_mask := Some mask1\<rparr>
                   else self);
           pixel_area = (get_pixel_size ws)\<^sup>2
       in Inr ((self, h),
               \<lparr>res_pixel_data = cropped, res_cropping = cropping, res_mask = mask1,
                res_image = image,
                area_retained_after_cropping = real (np_sum cropping) * pixel_area,
                original_image_area = real (prod_list (shape2 orig)) * pixel_area,
                size_changed_warning =
                  (reused = None \<and> individual_or_once s = IO_FIRST \<and> number ws \<noteq> 0)\<rparr>))))))))"

section \<open>Concrete inputs\<close>

text \<open>The settings as \<open>create_settings\<close> initialises them.\<close>

definition default_settings :: settings where
  "default_settings =
     \<lparr>image_name = ''DNA'', cropped_image_name = ''CropBlue'', shape = SH_ELLIPSE,
      crop_method = CM_COORDINATES, individual_or_once = IO_INDIVIDUALLY,
      horizontal_limits = \<lparr>range_min = None, range_max = None\<rparr>,
      vertical_limits = \<lparr>range_min = None, range_max = None\<rparr>,
      ellipse_center = (500, 500), ellipse_x_radius = 400, ellipse_y_radius = 200,
      image_mask_source = ''None'', cropping_mask_source = ''None'',
      objects_source = ''None'', use_plate_fix = False,
      remove_rows_and_columns = RM_NO\<rparr>"

text \<open>A rectangle with all four bounds given, and a grid of ten rows and ten columns.\<close>

definition rectangle_2_8 :: settings where
  "rectangle_2_8 =
     default_settings\<lparr>shape := SH_RECTANGLE,
       horizontal_limits := \<lparr>range_min = Some 2, range_max = Some 8\<rparr>,
       vertical_limits := \<lparr>range_min = Some 2, range_max = Some 8\<rparr>\<rparr>"

definition grid_10_10 :: "int ndarray" where
  "grid_10_10 = \<lparr>height = 10, width = 10, channels = None, px = (\<lambda>i j c. 1)\<rparr>"

text \<open>
  A grid of ten rows and two columns whose rows 3 to 6 hold the value 3: the
  sums of these rows exceed the threshold 5, the other rows are empty.
\<close>

definition plate_10 :: "int ndarray" where
  "plate_10 = \<lparr>height = 10, width = 2, channels = None,
               px = (\<lambda>i j c. if 3 \<le> i \<and> i \<le> 6 then 3 else 0)\<rparr>"


definition empty_10 :: "int ndarray" where
  "empty_10 = \<lparr>height = 10, width = 2, channels = None, px = (\<lambda>i j c. 0)\<rparr>"

text \<open>
  A workspace for cycle \<open>n\<close> that knows the image \<open>DNA\<close> at address 0, with a
  pixel size of 2; an implementation of \<open>cellprofiler.cpimage\<close> that always
  fails; the fields of a new module; and a colour image of two rows and two
  columns.
\<close>

definition no_cpimage :: "int cpimage" where
  "no_cpimage = \<lparr>crop_image = (\<lambda>a c internal. Inl LookupFailed),
                 crop_image_bool = (\<lambda>a c internal. Inl LookupFailed)\<rparr>"

definition dna_image :: cp_image where
  "dna_image = \<lparr>pixel_data = 0, crop_mask = np_ones grid_10_10\<rparr>"

definition cycle :: "nat \<Rightarrow> workspace" where
  "cycle n = \<lparr>number = n, get_image = [''DNA'' \<mapsto> dna_image], get_objects = Map.empty,
              get_pixel_size = 2\<rparr>"

definition no_first :: crop_state where
  "no_first = \<lparr>first_cropping = None, first_crop_mask = None\<rparr>"

definition colour_2_2 :: "int ndarray" where
  "colour_2_2 = \<lparr>height = 2, width = 2, channels = Some 3, px = (\<lambda>i j c. 1)\<rparr>"

text \<open>
  Settings that apply the cropping of the first cycle to all cycles, with the
  rectangle above and with the default ellipse; a rectangle without bounds;
  and a grid of another size.
\<close>

definition first_rectangle :: settings where
  "first_rectangle = rectangle_2_8\<lparr>individual_or_once := IO_FIRST\<rparr>"

definition first_ellipse :: settings where
  "first_ellipse = default_settings\<lparr>individual_or_once := IO_FIRST\<rparr>"

definition whole_rectangle :: settings where
  "whole_rectangle = default_settings\<lparr>shape := SH_RECTANGLE\<rparr>"

definition grid_5_5 :: "int ndarray" where
  "grid_5_5 = \<lparr>height = 5, width = 5, channels = None, px = (\<lambda>i j c. 1)\<rparr>"




section \<open>The ellipse in the words of the specification\<close>





section \<open>The rectangle mask\<close>

lemma slice_index_nonneg: "0 \<le> k \<Longrightarrow> i < n \<Longrightarrow> (i < slice_index n k) = (int i < k)"
  by (auto simp: slice_index_def)

lemma slice_index_nonneg_le: "0 \<le> k \<Longrightarrow> i < n \<Longrightarrow> (slice_index n k \<le> i) = (k \<le> int i)"
  by (auto simp: slice_index_def)

lemma rect_shape: "shape_of (get_rectangle_cropping s pd) = shape_of pd"
  by (simp add: get_rectangle_cropping_def Let_def np_ones_def shape_of_def
      assign_rows_to_def assign_rows_from_def assign_cols_to_def assign_cols_from_def
      split: option.splits)

lemma upt10: "[0..<10] = [0,1,2,3,4,5,6,7,8,9]"
  by (simp add: upt_rec)

text \<open>
  Claim C2. For a rectangle with all four bounds given, the mask has the shape
  of the pixel data and is true exactly at the pixels \<open>(y, x)\<close> of the grid with
  \<open>min_y \<le> y < max_y\<close> and \<open>min_x \<le> x < max_x\<close>. On a grid of ten rows and ten
  columns with all four bounds \<open>2\<close> and \<open>8\<close> it has exactly 36 true pixels, at
  rows and columns 2 to 7. The bounds are those the range setting admits
  (\<open>minval=0\<close>).
\<close>

theorem rectangle_mask_region:
  assumes "range_min (horizontal_limits s) = Some min_x"
      and "range_max (horizontal_limits s) = Some max_x"
      and "range_min (vertical_limits s) = Some min_y"
      and "range_max (vertical_limits s) = Some max_y"
      and "admitted (horizontal_limits s)" and "admitted (vertical_limits s)"
  shows "shape_of (get_rectangle_cropping s pd) = shape_of pd \<and>
         (\<forall>y < height pd. \<forall>x < width pd. \<forall>c.
            px (get_rectangle_cropping s pd) y x c =
              (min_y \<le> int y \<and> int y < max_y \<and> min_x \<le> int x \<and> int x < max_x)) \<and>
         (shape_of pd = [10, 10] \<and> (min_x, max_x, min_y, max_y) = (2, 8, 2, 8) \<longrightarrow>
            np_sum (get_rectangle_cropping s pd) = 36 \<and>
            (\<forall>y < 10. \<forall>x < 10. px (get_rectangle_cropping s pd) y x 0 =
               (y \<in> {2..7} \<and> x \<in> {2..7})))"
proof -
  have nn: "0 \<le> min_x" "0 \<le> max_x" "0 \<le> min_y" "0 \<le> max_y"
    using assms by (simp_all add: admitted_def)
  have pt: "px (get_rectangle_cropping s pd) y x c =
              (min_y \<le> int y \<and> int y < max_y \<and> min_x \<le> int x \<and> int x < max_x)"
    if "y < height pd" "x < width pd" for y x c
    using that assms(1-4) nn
    by (auto simp: get_rectangle_cropping_def Let_def np_ones_def
        assign_rows_to_def assign_rows_from_def assign_cols_to_def assign_cols_from_def
        slice_index_nonneg slice_index_nonneg_le)
  have ex: "np_sum (get_rectangle_cropping s pd) = 36 \<and>
            (\<forall>y < 10. \<forall>x < 10. px (get_rectangle_cropping s pd) y x 0 =
               (y \<in> {2..7} \<and> x \<in> {2..7}))"
    if sh: "shape_of pd = [10, 10]" and b: "(min_x, max_x, min_y, max_y) = (2, 8, 2, 8)"
  proof -
    have hw: "height pd = 10" "width pd = 10" "channels pd = None"
      using sh by (auto simp: shape_of_def split: option.splits)
    have hw': "height (get_rectangle_cropping s pd) = 10"
      "width (get_rectangle_cropping s pd) = 10"
      "channels (get_rectangle_cropping s pd) = None"
      using rect_shape[of s pd] sh by (auto simp: shape_of_def split: option.splits)
    have p: "px (get_rectangle_cropping s pd) y x c =
              (2 \<le> y \<and> y < 8 \<and> 2 \<le> x \<and> x < 8)" if "y < 10" "x < 10" for y x c
      using pt[of y x c] that hw b by auto
    have "np_sum (get_rectangle_cropping s pd) = 36"
      unfolding np_sum_def entries_def hw' nchan_def upt10
      by (simp add: p)
    moreover have "\<forall>y < 10. \<forall>x < 10. px (get_rectangle_cropping s pd) y x 0 =
               (y \<in> {2..7} \<and> x \<in> {2..7})"
      using p by auto
    ultimately show ?thesis by simp
  qed
  show ?thesis using rect_shape pt ex by blast
qed

theorem rectangle_mask_region_witness:
  "np_sum (get_rectangle_cropping rectangle_2_8 grid_10_10) = 36 \<and>
   px (get_rectangle_cropping rectangle_2_8 grid_10_10) 2 7 0 \<and>
   \<not> px (get_rectangle_cropping rectangle_2_8 grid_10_10) 8 7 0"
  using rectangle_mask_region [of rectangle_2_8 2 8 2 8 grid_10_10]
  by (simp add: rectangle_2_8_def default_settings_def grid_10_10_def admitted_def shape_of_def)

section \<open>Running counts and first indices\<close>

lemma length_cumsum_from: "length (cumsum_from n bs) = length bs"
  by (induction bs arbitrary: n) (simp_all add: Let_def)

lemma cumsum_from_nth:
  "k < length bs \<Longrightarrow>
   cumsum_from n bs ! k = n + length (filter (\<lambda>b. b) (take (Suc k) bs))"
proof (induction bs arbitrary: n k)
  case Nil
  then show ?case by simp
next
  case (Cons b bs)
  show ?case
  proof (cases k)
    case 0
    then show ?thesis by (simp add: Let_def)
  next
    case (Suc k')
    with Cons.prems have "k' < length bs" by simp
    from Cons.IH[OF this] Suc show ?thesis by (simp add: Let_def)
  qed
qed

lemma length_np_cumsum: "length (np_cumsum bs) = length bs"
  by (simp add: np_cumsum_def length_cumsum_from)

lemma np_cumsum_nth:
  "k < length bs \<Longrightarrow> np_cumsum bs ! k = length (filter (\<lambda>b. b) (take (Suc k) bs))"
  by (simp add: np_cumsum_def cumsum_from_nth)

lemma argwhere_first:
  assumes "k < length bs" "bs ! k" "\<forall>i<k. \<not> bs ! i"
  shows "first_elem (argwhere bs) = Inr k"
proof -
  have "[0..<length bs] = [0..<k] @ k # [Suc k..<length bs]"
    using assms(1) by (metis less_imp_le_nat upt_add_eq_append upt_conv_Cons le_add_diff_inverse zero_le)
  moreover have "filter (\<lambda>i. bs ! i) [0..<k] = []"
    using assms(3) by (simp add: filter_empty_conv)
  ultimately show ?thesis
    using assms(2) by (simp add: argwhere_def first_elem_def)
qed

lemma argwhere_none:
  assumes "\<forall>i<length bs. \<not> bs ! i"
  shows "first_elem (argwhere bs) = Inl IndexError"
  using assms by (simp add: argwhere_def first_elem_def filter_empty_conv[THEN iffD2])

lemma first_true:
  assumes "True \<in> set bs"
  obtains f where "f < length bs" "bs ! f" "\<forall>i<f. \<not> bs ! i"
proof -
  from assms obtain i where i: "i < length bs" "bs ! i" by (metis in_set_conv_nth)
  define f where "f = (LEAST i. i < length bs \<and> bs ! i)"
  have "f < length bs \<and> bs ! f" unfolding f_def by (rule LeastI[of _ i]) (use i in simp)
  moreover have "\<not> bs ! j" if "j < f" for j
    using not_less_Least[of j "\<lambda>i. i < length bs \<and> bs ! i"] that calculation
    unfolding f_def by auto
  ultimately show ?thesis using that by blast
qed

lemma last_true:
  assumes "True \<in> set bs"
  obtains l where "l < length bs" "bs ! l" "\<forall>i. l < i \<and> i < length bs \<longrightarrow> \<not> bs ! i"
proof -
  from assms obtain i where i: "i < length bs" "bs ! i" by (metis in_set_conv_nth)
  define l where "l = (GREATEST i. i < length bs \<and> bs ! i)"
  have b: "\<forall>y. y < length bs \<and> bs ! y \<longrightarrow> y \<le> length bs" by simp
  have "l < length bs \<and> bs ! l" unfolding l_def
    by (rule GreatestI_nat[of _ i "length bs"]) (use i in auto)
  moreover have "\<not> bs ! j" if "l < j" "j < length bs" for j
  proof
    assume "bs ! j"
    then have "j \<le> l" unfolding l_def
      using Greatest_le_nat[of "\<lambda>i. i < length bs \<and> bs ! i" j "length bs"] that by auto
    with that show False by simp
  qed
  ultimately show ?thesis using that by blast
qed

lemma count_take_le:
  "i \<le> k \<Longrightarrow> length (filter P (take i xs)) \<le> length (filter P (take k xs))"
proof -
  assume "i \<le> k"
  then have "take k xs = take i xs @ take (k - i) (drop i xs)"
    by (metis le_add_diff_inverse take_add)
  then show ?thesis by simp
qed

lemma count_take_all_false:
  assumes "\<forall>i<k. \<not> bs ! i" "k \<le> length bs"
  shows "filter (\<lambda>b. b) (take k bs) = []"
  using assms by (auto simp: filter_empty_conv in_set_conv_nth)

lemma count_drop_all_false:
  assumes "\<forall>i. l < i \<and> i < length bs \<longrightarrow> \<not> bs ! i"
  shows "filter (\<lambda>b. b) (drop (Suc l) bs) = []"
  using assms by (auto simp: filter_empty_conv in_set_conv_nth)

lemma first_last_end_found:
  assumes f: "f < length bs" "bs ! f" "\<forall>i<f. \<not> bs ! i"
      and l: "l < length bs" "bs ! l" "\<forall>i. l < i \<and> i < length bs \<longrightarrow> \<not> bs ! i"
  shows "first_last_end (np_cumsum bs) = Inr (f, l, l + 1)"
    and "reaches_at (np_cumsum bs) 1 f"
    and "reaches_at (np_cumsum bs) (Max (set (np_cumsum bs))) l"
proof -
  let ?cs = "np_cumsum bs"
  let ?cnt = "\<lambda>k. length (filter (\<lambda>b. b) (take k bs))"
  let ?T = "length (filter (\<lambda>b. b) bs)"
  have len: "length ?cs = length bs" by (rule length_np_cumsum)
  have nth: "?cs ! k = ?cnt (Suc k)" if "k < length bs" for k
    using that by (rule np_cumsum_nth)
  have cf: "?cnt (Suc f) = 1"
    using f count_take_all_false[of f bs] by (simp add: take_Suc_conv_app_nth)
  have cbelow: "?cnt (Suc i) = 0" if "i < f" for i
    using count_take_all_false[of "Suc i" bs] f that by auto
  have r1: "first_elem (argwhere (map (\<lambda>n. n = 1) ?cs)) = Inr f"
    by (rule argwhere_first) (use f len nth cf cbelow in auto)
  have ne: "?cs \<noteq> []" using len f by auto
  have "bs = take (Suc l) bs @ drop (Suc l) bs" by simp
  then have "?T = ?cnt (Suc l) + length (filter (\<lambda>b. b) (drop (Suc l) bs))"
    by (metis filter_append length_append)
  then have cl: "?cnt (Suc l) = ?T" using count_drop_all_false[OF l(3)] by simp
  have cle: "?cnt k \<le> ?T" for k
    using count_take_le[of k "length bs" "\<lambda>b. b" bs]
    by (cases "k \<le> length bs") (auto)
  have mx: "Max (set ?cs) = ?T"
  proof (rule Max_eqI)
    show "finite (set ?cs)" by simp
    show "y \<le> ?T" if "y \<in> set ?cs" for y
    proof -
      from that obtain k where "k < length bs" "y = ?cs ! k"
        using len by (metis in_set_conv_nth)
      then show ?thesis using nth cle by simp
    qed
    show "?T \<in> set ?cs"
      using l(1) nth[OF l(1)] cl len by (metis nth_mem)
  qed
  have clt: "?cnt (Suc i) < ?T" if "i < l" for i
  proof -
    have "?cnt (Suc l) = ?cnt l + 1"
      using l by (simp add: take_Suc_conv_app_nth)
    moreover have "?cnt (Suc i) \<le> ?cnt l"
      using that by (intro count_take_le) simp
    ultimately show ?thesis using cl by simp
  qed
  have ltl: "?cs ! i \<noteq> ?T" if "i < l" for i
    using clt[OF that] nth[of i] that l(1) by simp
  have r2: "first_elem (argwhere (map (\<lambda>n. n = ?T) ?cs)) = Inr l"
  proof (rule argwhere_first)
    show "l < length (map (\<lambda>n. n = ?T) ?cs)" using l len by simp
    show "map (\<lambda>n. n = ?T) ?cs ! l" using l len nth cl by simp
    show "\<forall>i<l. \<not> map (\<lambda>n. n = ?T) ?cs ! i" using l(1) len ltl by simp
  qed
  have "np_max ?cs = Inr ?T"
    using ne mx by (cases ?cs) (simp_all add: np_max_def)
  then show "first_last_end ?cs = Inr (f, l, l + 1)"
    using r1 r2 by (simp add: first_last_end_def)
  show "reaches_at ?cs 1 f"
    using f len nth cf cbelow by (auto simp: reaches_at_def list_all_iff)
  show "reaches_at ?cs (Max (set ?cs)) l"
    using l len nth cl ltl mx by (simp add: reaches_at_def list_all_iff)
qed

lemma first_last_end_none:
  assumes "True \<notin> set bs"
  shows "first_last_end (np_cumsum bs) = Inl IndexError"
proof -
  let ?cs = "np_cumsum bs"
  have "?cs ! k = 0" if "k < length bs" for k
  proof -
    have "\<forall>x\<in>set (take (Suc k) bs). \<not> x"
      using assms by (metis (full_types) in_set_takeD)
    then show ?thesis using that by (simp add: np_cumsum_nth filter_empty_conv[THEN iffD2])
  qed
  then have "first_elem (argwhere (map (\<lambda>n. n = 1) ?cs)) = Inl IndexError"
    by (intro argwhere_none) (simp add: length_np_cumsum)
  then show ?thesis by (simp add: first_last_end_def)
qed

section \<open>The indices of plate fixup\<close>

lemma concat_map_singleton: "concat (map (\<lambda>i. [f i]) xs) = map f xs"
  by (induction xs) simp_all

lemma majority_rows_2d:
  "channels a = None \<Longrightarrow> majority_rows a = map (majority_row a) [0..<height a]"
  by (simp add: majority_rows_def i_histogram_def nchan_def concat_map_singleton
      majority_row_def)

lemma majority_cols_2d:
  "channels a = None \<Longrightarrow> majority_cols a = map (majority_col a) [0..<width a]"
  by (simp add: majority_cols_def j_histogram_def nchan_def concat_map_singleton
      majority_col_def)

lemma some_majority_row:
  "channels a = None \<Longrightarrow> (True \<in> set (majority_rows a)) = (\<exists>i<height a. majority_row a i)"
  by (auto simp: majority_rows_2d)

lemma some_majority_col:
  "channels a = None \<Longrightarrow> (True \<in> set (majority_cols a)) = (\<exists>j<width a. majority_col a j)"
  by (auto simp: majority_cols_2d)

text \<open>The running count over a list of flags given by a predicate on the index.\<close>

lemma first_last_end_pred:
  assumes "\<exists>i<n. P i"
  shows "\<exists>f l. first_last_end (np_cumsum (map P [0..<n])) = Inr (f, l, l + 1) \<and>
           reaches_at (np_cumsum (map P [0..<n])) 1 f \<and>
           reaches_at (np_cumsum (map P [0..<n])) (Max (set (np_cumsum (map P [0..<n])))) l \<and>
           f < n \<and> P f \<and> (\<forall>k<f. \<not> P k) \<and>
           l < n \<and> P l \<and> (\<forall>k<n. l < k \<longrightarrow> \<not> P k)"
proof -
  let ?bs = "map P [0..<n]"
  have t: "True \<in> set ?bs" using assms by auto
  obtain f where f: "f < length ?bs" "?bs ! f" "\<forall>i<f. \<not> ?bs ! i"
    using first_true[OF t] by blast
  obtain l where l: "l < length ?bs" "?bs ! l" "\<forall>i. l < i \<and> i < length ?bs \<longrightarrow> \<not> ?bs ! i"
    using last_true[OF t] by blast
  note r = first_last_end_found[OF f l]
  have "f < n" "P f" "l < n" "P l" using f l by simp_all
  moreover have "\<forall>k<f. \<not> P k" using f by auto
  moreover have "\<forall>k<n. l < k \<longrightarrow> \<not> P k" using l by auto
  ultimately show ?thesis using r by blast
qed

text \<open>
  Claim C4. In a two-dimensional grid with a majority-covered row, plate fixup
  finds \<open>i_first\<close>, the index at which the cumulative count of majority-covered
  rows reaches 1 (the first such row), and \<open>i_last\<close>, the index at which the
  count reaches its maximum (the last such row), and \<open>i_end = i_last + 1\<close>; the
  columns give \<open>j_first\<close> and \<open>j_end\<close> in the same way. When the majority-covered
  rows of a grid of ten rows are the rows 3 to 6, \<open>i_first = 3\<close> and
  \<open>i_end = 7\<close>.
\<close>

theorem plate_fixup_first_and_end:
  assumes "channels a = None"
  shows "((\<exists>i<height a. majority_row a i) \<longrightarrow>
            (\<exists>i_first i_last i_end.
               first_last_end (i_cumsum a) = Inr (i_first, i_last, i_end) \<and>
               reaches_at (i_cumsum a) 1 i_first \<and>
               reaches_at (i_cumsum a) (Max (set (i_cumsum a))) i_last \<and>
               i_end = i_last + 1 \<and>
               i_first < height a \<and> majority_row a i_first \<and>
               (\<forall>k<i_first. \<not> majority_row a k) \<and>
               i_last < height a \<and> majority_row a i_last \<and>
               (\<forall>k<height a. i_last < k \<longrightarrow> \<not> majority_row a k) \<and>
               (height a = 10 \<and> (\<forall>i<10. majority_row a i = (3 \<le> i \<and> i \<le> 6)) \<longrightarrow>
                  i_first = 3 \<and> i_end = 7))) \<and>
         ((\<exists>j<width a. majority_col a j) \<longrightarrow>
            (\<exists>j_first j_last j_end.
               first_last_end (j_cumsum a) = Inr (j_first, j_last, j_end) \<and>
               reaches_at (j_cumsum a) 1 j_first \<and>
               reaches_at (j_cumsum a) (Max (set (j_cumsum a))) j_last \<and>
               j_end = j_last + 1 \<and>
               j_first < width a \<and> majority_col a j_first \<and>
               (\<forall>k<j_first. \<not> majority_col a k) \<and>
               j_last < width a \<and> majority_col a j_last \<and>
               (\<forall>k<width a. j_last < k \<longrightarrow> \<not> majority_col a k)))"
proof (intro conjI impI)
  assume "\<exists>i<height a. majority_row a i"
  from first_last_end_pred[OF this] obtain f l where
    r: "first_last_end (i_cumsum a) = Inr (f, l, l + 1)"
       "reaches_at (i_cumsum a) 1 f"
       "reaches_at (i_cumsum a) (Max (set (i_cumsum a))) l"
    and f: "f < height a" "majority_row a f" "\<forall>k<f. \<not> majority_row a k"
    and l: "l < height a" "majority_row a l" "\<forall>k<height a. l < k \<longrightarrow> \<not> majority_row a k"
    unfolding i_cumsum_def majority_rows_2d[OF assms] by blast
  have "f = 3 \<and> l + 1 = 7"
    if h: "height a = 10" and m: "\<forall>i<10. majority_row a i = (3 \<le> i \<and> i \<le> 6)"
  proof -
    have "3 \<le> f" "l \<le> 6" using f l h m by auto
    moreover have "\<not> 3 < f" using f(3)[rule_format, of 3] m by auto
    moreover have "\<not> l < 6" using l(3)[rule_format, of 6] h m by auto
    ultimately show ?thesis by simp
  qed
  with r f l show "\<exists>i_first i_last i_end.
               first_last_end (i_cumsum a) = Inr (i_first, i_last, i_end) \<and>
               reaches_at (i_cumsum a) 1 i_first \<and>
               reaches_at (i_cumsum a) (Max (set (i_cumsum a))) i_last \<and>
               i_end = i_last + 1 \<and>
               i_first < height a \<and> majority_row a i_first \<and>
               (\<forall>k<i_first. \<not> majority_row a k) \<and>
               i_last < height a \<and> majority_row a i_last \<and>
               (\<forall>k<height a. i_last < k \<longrightarrow> \<not> majority_row a k) \<and>
               (height a = 10 \<and> (\<forall>i<10. majority_row a i = (3 \<le> i \<and> i \<le> 6)) \<longrightarrow>
                  i_first = 3 \<and> i_end = 7)"
    by blast
next
  assume "\<exists>j<width a. majority_col a j"
  from first_last_end_pred[OF this] obtain f l where
    r: "first_last_end (j_cumsum a) = Inr (f, l, l + 1)"
       "reaches_at (j_cumsum a) 1 f"
       "reaches_at (j_cumsum a) (Max (set (j_cumsum a))) l"
    and f: "f < width a" "majority_col a f" "\<forall>k<f. \<not> majority_col a k"
    and l: "l < width a" "majority_col a l" "\<forall>k<width a. l < k \<longrightarrow> \<not> majority_col a k"
    unfolding j_cumsum_def majority_cols_2d[OF assms] by blast
  then show "\<exists>j_first j_last j_end.
               first_last_end (j_cumsum a) = Inr (j_first, j_last, j_end) \<and>
               reaches_at (j_cumsum a) 1 j_first \<and>
               reaches_at (j_cumsum a) (Max (set (j_cumsum a))) j_last \<and>
               j_end = j_last + 1 \<and>
               j_first < width a \<and> majority_col a j_first \<and>
               (\<forall>k<j_first. \<not> majority_col a k) \<and>
               j_last < width a \<and> majority_col a j_last \<and>
               (\<forall>k<width a. j_last < k \<longrightarrow> \<not> majority_col a k)"
    by blast
qed

lemma upt2: "[0..<2] = [0, 1]" by (simp add: upt_rec)

lemma plate_10_rows: "i < 10 \<Longrightarrow> majority_row plate_10 i = (3 \<le> i \<and> i \<le> 6)"
  by (simp add: majority_row_def row_sum_def plate_10_def upt2)

theorem plate_fixup_first_and_end_witness:
  "\<exists>i_last. first_last_end (i_cumsum plate_10) = Inr (3, i_last, 7)"
proof -
  have "channels plate_10 = None" "height plate_10 = 10" by (simp_all add: plate_10_def)
  moreover have "\<exists>i<height plate_10. majority_row plate_10 i"
    using plate_10_rows[of 3] calculation(2) by (intro exI[of _ 3]) simp
  ultimately show ?thesis
    using plate_fixup_first_and_end [of plate_10] plate_10_rows by auto
qed

section \<open>The result of plate fixup\<close>








lemma plate_fixup_unfold:
  "plate_fixup s src h =
     (case plate_fixup_indices s (h ! src) of
        Inl e \<Rightarrow> Inl e
      | Inr ix \<Rightarrow> Inr (length h, zero_outside ix (length h) (h @ [h ! src])))"
  by (simp add: plate_fixup_def copy_array_def alloc_def)

lemma first_elem_error: "first_elem xs = Inl e \<Longrightarrow> e = IndexError"
  by (cases xs) (simp_all add: first_elem_def)

lemma first_last_end_error:
  assumes "first_last_end cs = Inl e"
  shows "e = IndexError"
proof (cases "first_elem (argwhere (map (\<lambda>n. n = 1) cs))")
  case (Inl e')
  then show ?thesis using assms first_elem_error[OF Inl] by (simp add: first_last_end_def)
next
  case (Inr k)
  then have "cs \<noteq> []" by (auto simp: argwhere_def first_elem_def)
  then obtain m where m: "np_max cs = Inr m" by (cases cs) (simp_all add: np_max_def)
  show ?thesis
  proof (cases "first_elem (argwhere (map (\<lambda>n. n = m) cs))")
    case (Inl e')
    then show ?thesis
      using assms Inr m first_elem_error[OF Inl] by (simp add: first_last_end_def)
  next
    case (Inr l)
    then show ?thesis using assms \<open>first_elem (argwhere (map (\<lambda>n. n = 1) cs)) = Inr k\<close> m
      by (simp add: first_last_end_def)
  qed
qed






lemma shape_of_eq:
  "height a = height b \<Longrightarrow> width a = width b \<Longrightarrow> channels a = channels b \<Longrightarrow>
   shape_of a = shape_of b"
  by (cases "channels b") (simp_all add: shape_of_def)


section \<open>Failure and the empty band\<close>



lemma plate_10_majority:
  "True \<in> set (majority_rows plate_10)" "True \<in> set (majority_cols plate_10)"
  by code_simp+

lemma empty_10_majority: "True \<notin> set (majority_rows empty_10)"
  by code_simp

lemma first_last_end_some:
  "True \<in> set bs \<Longrightarrow> \<exists>f l. first_last_end (np_cumsum bs) = Inr (f, l, l + 1)"
proof -
  assume t: "True \<in> set bs"
  show ?thesis
  proof (rule first_true[OF t], rule last_true[OF t])
    fix f l
    assume "f < length bs" "bs ! f" "\<forall>i<f. \<not> bs ! i"
      "l < length bs" "bs ! l" "\<forall>i. l < i \<and> i < length bs \<longrightarrow> \<not> bs ! i"
    from first_last_end_found(1)[OF this] show ?thesis by (intro exI)
  qed
qed

lemma plate_fixup_indices_cases:
  "True \<notin> set (majority_rows a) \<Longrightarrow> plate_fixup_indices s a = Inl IndexError"
  "True \<notin> set (majority_cols a) \<Longrightarrow> plate_fixup_indices s a = Inl e \<Longrightarrow> e = IndexError"
  "True \<in> set (majority_rows a) \<Longrightarrow> True \<notin> set (majority_cols a) \<Longrightarrow>
     plate_fixup_indices s a = Inl IndexError"
  "True \<in> set (majority_rows a) \<Longrightarrow> True \<in> set (majority_cols a) \<Longrightarrow>
     \<exists>ix. plate_fixup_indices s a = Inr ix"
proof -
  show "plate_fixup_indices s a = Inl IndexError" if "True \<notin> set (majority_rows a)"
    using first_last_end_none[OF that]
    by (simp add: plate_fixup_indices_def i_cumsum_def)
  show "e = IndexError"
    if "True \<notin> set (majority_cols a)" "plate_fixup_indices s a = Inl e"
  proof (cases "first_last_end (i_cumsum a)")
    case (Inl e')
    then show ?thesis
      using that(2) first_last_end_error[OF Inl] by (simp add: plate_fixup_indices_def)
  next
    case (Inr t)
    then show ?thesis
      using that(2) first_last_end_none[OF that(1)]
      by (cases t) (simp add: plate_fixup_indices_def j_cumsum_def)
  qed
  show "plate_fixup_indices s a = Inl IndexError"
    if "True \<in> set (majority_rows a)" "True \<notin> set (majority_cols a)"
  proof -
    from first_last_end_some[OF that(1)] obtain f l where
      "first_last_end (i_cumsum a) = Inr (f, l, l + 1)" unfolding i_cumsum_def by blast
    then show ?thesis
      using first_last_end_none[OF that(2)]
      by (simp add: plate_fixup_indices_def j_cumsum_def)
  qed
  show "\<exists>ix. plate_fixup_indices s a = Inr ix"
    if "True \<in> set (majority_rows a)" "True \<in> set (majority_cols a)"
  proof -
    from first_last_end_some[OF that(1)] obtain f l where
      "first_last_end (i_cumsum a) = Inr (f, l, l + 1)" unfolding i_cumsum_def by blast
    moreover from first_last_end_some[OF that(2)] obtain f' l' where
      "first_last_end (j_cumsum a) = Inr (f', l', l' + 1)" unfolding j_cumsum_def by blast
    ultimately show ?thesis by (simp add: plate_fixup_indices_def)
  qed
qed

lemma plate_fixup_Inl_iff:
  "(plate_fixup s src h = Inl e) = (plate_fixup_indices s (h ! src) = Inl e)"
  by (simp add: plate_fixup_unfold split: sum.splits)

lemma plate_fixup_Inr_ex:
  "(\<exists>p h'. plate_fixup s src h = Inr (p, h')) = (\<exists>ix. plate_fixup_indices s (h ! src) = Inr ix)"
  by (simp add: plate_fixup_unfold split: sum.splits)

text \<open>
  Claim C6. Plate fixup fails exactly when no row or no column of the grid
  is covered by a majority, that is, when the search for the index with
  count 1 finds nothing (the \<open>IndexError\<close> of \<open>[0]\<close> on an empty \<open>argwhere\<close>; it
  never fails otherwise); with a majority-covered row and a majority-covered
  column it returns. In a two-dimensional grid the entries of \<open>majority_rows\<close>
  and \<open>majority_cols\<close> are the rows and the columns whose sums exceed the
  threshold.
\<close>

theorem plate_fixup_fails_iff:
  "((plate_fixup s src h = Inl IndexError) =
      (True \<notin> set (majority_rows (h ! src)) \<or> True \<notin> set (majority_cols (h ! src)))) \<and>
   (\<forall>e. plate_fixup s src h = Inl e \<longrightarrow> e = IndexError) \<and>
   (True \<in> set (majority_rows (h ! src)) \<and> True \<in> set (majority_cols (h ! src)) \<longrightarrow>
      (\<exists>p h'. plate_fixup s src h = Inr (p, h'))) \<and>
   (channels (h ! src) = None \<longrightarrow>
      (True \<in> set (majority_rows (h ! src))) =
        (\<exists>i<height (h ! src). majority_row (h ! src) i) \<and>
      (True \<in> set (majority_cols (h ! src))) =
        (\<exists>j<width (h ! src). majority_col (h ! src) j))"
proof -
  let ?a = "h ! src"
  let ?R = "True \<in> set (majority_rows ?a)"
  let ?C = "True \<in> set (majority_cols ?a)"
  have ok: "\<exists>p h'. plate_fixup s src h = Inr (p, h')" if ?R ?C
    using plate_fixup_indices_cases(4)[OF that, of s] by (simp only: plate_fixup_Inr_ex)
  have bad: "plate_fixup s src h = Inl IndexError" if "\<not> ?R \<or> \<not> ?C"
  proof (cases ?R)
    case True
    with that have "\<not> ?C" by simp
    from plate_fixup_indices_cases(3)[OF True this] show ?thesis
      by (simp only: plate_fixup_Inl_iff)
  next
    case False
    from plate_fixup_indices_cases(1)[OF False] show ?thesis
      by (simp only: plate_fixup_Inl_iff)
  qed
  have iff: "(plate_fixup s src h = Inl IndexError) = (\<not> ?R \<or> \<not> ?C)"
  proof
    assume l: "plate_fixup s src h = Inl IndexError"
    show "\<not> ?R \<or> \<not> ?C"
    proof (rule ccontr)
      assume "\<not> (\<not> ?R \<or> \<not> ?C)"
      then have "\<exists>p h'. plate_fixup s src h = Inr (p, h')" using ok by simp
      with l show False by simp
    qed
  next
    assume "\<not> ?R \<or> \<not> ?C" then show "plate_fixup s src h = Inl IndexError" by (rule bad)
  qed
  have only: "e = IndexError" if "plate_fixup s src h = Inl e" for e
  proof (cases "?R \<and> ?C")
    case True
    then have "\<exists>p h'. plate_fixup s src h = Inr (p, h')" using ok by simp
    with that show ?thesis by simp
  next
    case False
    then have "plate_fixup s src h = Inl IndexError" using bad by simp
    with that show ?thesis by simp
  qed
  show ?thesis
    apply (intro conjI allI impI)
        apply (rule iff)
       apply (erule only)
      apply (erule conjE, erule (1) ok)
     apply (erule some_majority_row)
    apply (erule some_majority_col)
    done
qed

theorem plate_fixup_fails_iff_witness:
  "(\<exists>p h'. plate_fixup default_settings 0 [plate_10] = Inr (p, h')) \<and>
   plate_fixup default_settings 0 [empty_10] = Inl IndexError"
  using plate_fixup_fails_iff [of default_settings 0 "[plate_10]"]
    plate_fixup_fails_iff [of default_settings 0 "[empty_10]"]
    plate_10_majority empty_10_majority
  by simp





section \<open>Cropping without removal of rows and columns\<close>

lemma zero_where_not_Inr:
  assumes "height m = height a" "width m = width a"
    "channels m = None \<or> channels m = channels a"
  shows "zero_where_not m a =
           Inr (a\<lparr>px := (\<lambda>i j c. if px m i j (case channels m of None \<Rightarrow> 0 | Some _ \<Rightarrow> c)
                                   then px a i j c else 0)\<rparr>)"
  using assms by (simp add: zero_where_not_def)

lemma crop_pixel_data_RM_NO:
  assumes "height cropping = height (h ! orig)" "width cropping = width (h ! orig)"
    "channels cropping = None \<or> channels cropping = channels (h ! orig)"
  shows "crop_pixel_data cpi RM_NO orig cropping mask1 h =
           Inr (length h, (case mask1 of None \<Rightarrow> cropping | Some m \<Rightarrow> m),
                h @ [(h ! orig)\<lparr>px := (\<lambda>i j c.
                  if px cropping i j (case channels cropping of None \<Rightarrow> 0 | Some _ \<Rightarrow> c)
                  then px (h ! orig) i j c else 0)\<rparr>])"
  using zero_where_not_Inr[OF assms]
  by (simp add: crop_pixel_data_def copy_array_def alloc_def)

lemma shape_of_px_update: "shape_of (a\<lparr>px := f\<rparr>) = shape_of a"
  by (rule shape_of_eq) simp_all

text \<open>
  Claim C7. With \<open>remove_rows_and_columns = No\<close>, for a grid and a cropping of
  the same height and width, the cropped grid has the shape of the input, is
  zero at every pixel where the cropping is false and holds the original
  value where it is true; the mask that comes out is the cropping itself
  (or, unchanged, the mask kept from the first cycle); and the grid of the
  caller is left as it was, the zeros being written to a copy.
\<close>

theorem crop_without_removal:
  assumes "orig < length h"
      and "height cropping = height (h ! orig)" and "width cropping = width (h ! orig)"
      and "channels cropping = None \<or> channels cropping = channels (h ! orig)"
  shows "\<exists>cropped h'.
           crop_pixel_data cpi RM_NO orig cropping mask1 h =
             Inr (cropped, (case mask1 of None \<Rightarrow> cropping | Some m \<Rightarrow> m), h') \<and>
           shape_of (h' ! cropped) = shape_of (h ! orig) \<and>
           (\<forall>i<height (h ! orig). \<forall>j<width (h ! orig). \<forall>c.
              px (h' ! cropped) i j c =
                (if px cropping i j (case channels cropping of None \<Rightarrow> 0 | Some _ \<Rightarrow> c)
                 then px (h ! orig) i j c else 0)) \<and>
           h' ! orig = h ! orig \<and> cropped \<noteq> orig \<and> (\<forall>q<length h. h' ! q = h ! q)"
  apply (rule exI[of _ "length h"])
  apply (rule exI)
  apply (intro conjI)
       apply (rule crop_pixel_data_RM_NO[OF assms(2-4)])
  using assms(1) by (simp_all add: shape_of_px_update nth_append)


section \<open>The stages of one cycle\<close>

lemma run_Inr:
  assumes "run cpi s ws (self, h) = Inr ((self', h'), out)"
  obtains orig_image reused c mask0 masking_objects h1 cropped mask2 where
    "get_image ws (image_name s) = Some orig_image"
    "reused_cropping s ws self (h ! pixel_data orig_image) = Inr reused"
    "(case reused of
        Some c \<Rightarrow> Inr (c, first_crop_mask self, None, h)
      | None \<Rightarrow>
          (case compute_cropping s ws orig_image h of
             Inl e \<Rightarrow> Inl e
           | Inr (c, masking_objects, h) \<Rightarrow> Inr (c, None, masking_objects, h))) =
     Inr (c, mask0, masking_objects, h1)"
    "crop_pixel_data cpi (remove_rows_and_columns s) (pixel_data orig_image) c mask0 h1 =
       Inr (cropped, mask2, h')"
    "self' = (if individual_or_once s = IO_FIRST \<and> number ws = 0
              then self\<lparr>first_cropping := Some c, first_crop_mask := Some mask2\<rparr>
              else self)"
    "out = \<lparr>res_pixel_data = cropped, res_cropping = c, res_mask = mask2,
            res_image = (if shape s = SH_OBJECTS
                         then ObjectsImage cropped masking_objects orig_image
                         else MaskedImage cropped mask2 orig_image c),
            area_retained_after_cropping = real (np_sum c) * (get_pixel_size ws)\<^sup>2,
            original_image_area =
              real (prod_list (shape2 (h ! pixel_data orig_image))) * (get_pixel_size ws)\<^sup>2,
            size_changed_warning =
              (reused = None \<and> individual_or_once s = IO_FIRST \<and> number ws \<noteq> 0)\<rparr>"
proof -
  obtain orig_image where oi: "get_image ws (image_name s) = Some orig_image"
    using assms by (cases "get_image ws (image_name s)") (simp_all add: run_def)
  obtain reused where re: "reused_cropping s ws self (h ! pixel_data orig_image) = Inr reused"
    using assms oi
    by (cases "reused_cropping s ws self (h ! pixel_data orig_image)")
       (simp_all add: run_def Let_def)
  let ?stage = "(case reused of
        Some c \<Rightarrow> Inr (c, first_crop_mask self, None, h)
      | None \<Rightarrow>
          (case compute_cropping s ws orig_image h of
             Inl e \<Rightarrow> Inl e
           | Inr (c, masking_objects, h) \<Rightarrow> Inr (c, None, masking_objects, h)))"
  obtain t where st: "?stage = Inr t"
    using assms oi re by (cases ?stage) (simp_all add: run_def Let_def)
  obtain c mask0 masking_objects h1 where t: "t = (c, mask0, masking_objects, h1)"
    by (cases t) auto
  let ?crop = "crop_pixel_data cpi (remove_rows_and_columns s) (pixel_data orig_image)
                 c mask0 h1"
  obtain u where cr: "?crop = Inr u"
    using assms oi re st t by (cases ?crop) (simp_all add: run_def Let_def)
  obtain cropped mask2 h2 where u: "u = (cropped, mask2, h2)" by (cases u) auto
  have "run cpi s ws (self, h) =
     Inr ((if individual_or_once s = IO_FIRST \<and> number ws = 0
              then self\<lparr>first_cropping := Some c, first_crop_mask := Some mask2\<rparr>
              else self, h2),
          \<lparr>res_pixel_data = cropped, res_cropping = c, res_mask = mask2,
            res_image = (if shape s = SH_OBJECTS
                         then ObjectsImage cropped masking_objects orig_image
                         else MaskedImage cropped mask2 orig_image c),
            area_retained_after_cropping = real (np_sum c) * (get_pixel_size ws)\<^sup>2,
            original_image_area =
              real (prod_list (shape2 (h ! pixel_data orig_image))) * (get_pixel_size ws)\<^sup>2,
            size_changed_warning =
              (reused = None \<and> individual_or_once s = IO_FIRST \<and> number ws \<noteq> 0)\<rparr>)"
    using oi re st t cr u by (simp add: run_def Let_def)
  with assms have
    "self' = (if individual_or_once s = IO_FIRST \<and> number ws = 0
              then self\<lparr>first_cropping := Some c, first_crop_mask := Some mask2\<rparr>
              else self)" "h' = h2"
    "out = \<lparr>res_pixel_data = cropped, res_cropping = c, res_mask = mask2,
            res_image = (if shape s = SH_OBJECTS
                         then ObjectsImage cropped masking_objects orig_image
                         else MaskedImage cropped mask2 orig_image c),
            area_retained_after_cropping = real (np_sum c) * (get_pixel_size ws)\<^sup>2,
            original_image_area =
              real (prod_list (shape2 (h ! pixel_data orig_image))) * (get_pixel_size ws)\<^sup>2,
            size_changed_warning =
              (reused = None \<and> individual_or_once s = IO_FIRST \<and> number ws \<noteq> 0)\<rparr>"
    by simp_all
  then show ?thesis
    using that[OF oi re st[unfolded t], of cropped mask2] cr[unfolded u] by simp
qed


lemma prod_list_shape2: "prod_list (shape2 a) = height a * width a"
  by (cases "channels a") (simp_all add: shape2_def shape_of_def)

text \<open>
  Claim C8. After a successful cycle the retained area is the number of true
  entries of the cropping (the mask before any removal of rows and columns;
  when the cropping is calculated in this cycle it is the one
  \<open>compute_cropping\<close> yields) times the area of a pixel, the original area is
  \<open>H * W\<close> times the same unit, and so their quotient is \<open>H * W\<close> over the number of
  true entries.
\<close>

theorem area_measurements:
  assumes "run cpi s ws (self, h) = Inr ((self', h'), out)"
  shows "\<exists>orig_image.
           get_image ws (image_name s) = Some orig_image \<and>
           area_retained_after_cropping out =
             real (np_sum (res_cropping out)) * (get_pixel_size ws)\<^sup>2 \<and>
           original_image_area out =
             real (height (h ! pixel_data orig_image) * width (h ! pixel_data orig_image)) *
             (get_pixel_size ws)\<^sup>2 \<and>
           (get_pixel_size ws \<noteq> 0 \<longrightarrow>
              original_image_area out / area_retained_after_cropping out =
                real (height (h ! pixel_data orig_image) * width (h ! pixel_data orig_image)) /
                real (np_sum (res_cropping out))) \<and>
           (individual_or_once s = IO_INDIVIDUALLY \<or> number ws = 0 \<longrightarrow>
              (\<exists>masking_objects h1.
                 compute_cropping s ws orig_image h =
                   Inr (res_cropping out, masking_objects, h1)))"
proof (rule run_Inr[OF assms])
  fix orig_image reused c mask0 masking_objects h1 cropped mask2
  assume oi: "get_image ws (image_name s) = Some orig_image"
    and re: "reused_cropping s ws self (h ! pixel_data orig_image) = Inr reused"
    and st: "(case reused of
        Some c \<Rightarrow> Inr (c, first_crop_mask self, None, h)
      | None \<Rightarrow>
          (case compute_cropping s ws orig_image h of
             Inl e \<Rightarrow> Inl e
           | Inr (c, masking_objects, h) \<Rightarrow> Inr (c, None, masking_objects, h))) =
     Inr (c, mask0, masking_objects, h1)"
    and out: "out = \<lparr>res_pixel_data = cropped, res_cropping = c, res_mask = mask2,
            res_image = (if shape s = SH_OBJECTS
                         then ObjectsImage cropped masking_objects orig_image
                         else MaskedImage cropped mask2 orig_image c),
            area_retained_after_cropping = real (np_sum c) * (get_pixel_size ws)\<^sup>2,
            original_image_area =
              real (prod_list (shape2 (h ! pixel_data orig_image))) * (get_pixel_size ws)\<^sup>2,
            size_changed_warning =
              (reused = None \<and> individual_or_once s = IO_FIRST \<and> number ws \<noteq> 0)\<rparr>"
  have 1: "area_retained_after_cropping out =
             real (np_sum (res_cropping out)) * (get_pixel_size ws)\<^sup>2"
    by (simp add: out)
  have 2: "original_image_area out =
             real (height (h ! pixel_data orig_image) * width (h ! pixel_data orig_image)) *
             (get_pixel_size ws)\<^sup>2"
    by (simp add: out prod_list_shape2)
  have 3: "original_image_area out / area_retained_after_cropping out =
                real (height (h ! pixel_data orig_image) * width (h ! pixel_data orig_image)) /
                real (np_sum (res_cropping out))" if "get_pixel_size ws \<noteq> 0"
    unfolding 1 2 using that by simp
  have 4: "\<exists>masking_objects h1.
                 compute_cropping s ws orig_image h =
                   Inr (res_cropping out, masking_objects, h1)"
    if "individual_or_once s = IO_INDIVIDUALLY \<or> number ws = 0"
  proof -
    have "reused = None" using re that by (auto simp: reused_cropping_def)
    with st show ?thesis
      by (cases "compute_cropping s ws orig_image h") (auto simp: out)
  qed
  show ?thesis
    apply (rule exI[of _ orig_image])
    apply (intro conjI impI)
        apply (rule oi)
       apply (rule 1)
      apply (rule 2)
     apply (erule 3)
    apply (erule 4)
    done
qed

section \<open>The cropping of the first cycle\<close>

lemma rect_dims:
  "height (get_rectangle_cropping s pd) = height pd"
  "width (get_rectangle_cropping s pd) = width pd"
  "channels (get_rectangle_cropping s pd) = channels pd"
  by (simp_all add: get_rectangle_cropping_def Let_def np_ones_def
      assign_rows_to_def assign_rows_from_def assign_cols_to_def assign_cols_from_def
      split: option.splits)

lemma crop_pixel_data_keeps_mask:
  assumes "crop_pixel_data cpi rm orig c (Some m) h = Inr (cropped, m2, h')"
  shows "m2 = m"
proof (cases "rm = RM_NO")
  case True
  with assms show ?thesis
    by (auto simp: crop_pixel_data_def copy_array_def alloc_def split: sum.splits)
next
  case False
  with assms show ?thesis
    by (auto simp: crop_pixel_data_def alloc_def Let_def split: sum.splits)
qed

lemma compute_cropping_individually:
  "compute_cropping (s\<lparr>individual_or_once := x\<rparr>) ws oi h = compute_cropping s ws oi h"
proof -
  have 1: "plate_fixup (s\<lparr>individual_or_once := x\<rparr>) p h = plate_fixup s p h" for p
    by (simp add: plate_fixup_def plate_fixup_indices_def
        split: sum.splits prod.splits)
  have 2: "get_ellipse_cropping (s\<lparr>individual_or_once := x\<rparr>) a = get_ellipse_cropping s a"
    for a :: "'a ndarray"
    by (simp add: get_ellipse_cropping_def Let_def split: sum.splits)
  have 3: "get_rectangle_cropping (s\<lparr>individual_or_once := x\<rparr>) a =
           get_rectangle_cropping s a" for a :: "'a ndarray"
    by (simp add: get_rectangle_cropping_def Let_def split: option.splits)
  show ?thesis
    by (simp add: compute_cropping_def 1 2 3 split: option.splits)
qed

lemma run_saves:
  assumes "individual_or_once s = IO_FIRST" "number ws = 0"
      and "run cpi s ws (self, h) = Inr ((self', h'), out)"
  shows "first_cropping self' = Some (res_cropping out)"
    and "first_crop_mask self' = Some (res_mask out)"
  by (rule run_Inr[OF assms(3)], simp add: assms(1,2))+


text \<open>
  Claim C1. Let the first cycle (image set number 0) of a module in mode
  \<open>First\<close> succeed; it stores its cropping and its mask. In every later cycle
  in mode \<open>First\<close> that succeeds: when the shape of the stored cropping equals
  the height and width of the incoming grid, the cropping and the mask of the
  cycle are the stored ones, whatever the settings of the shape say now (the
  output image carries them, unless the shape is \<open>Objects\<close>, where the image is
  built from masking objects); when it differs, the warning is written and the
  cycle yields what a cycle in mode \<open>Individually\<close> yields from the current
  settings; in both cases the stored cropping and mask stay as they were.
\<close>

theorem first_cropping_reused:
  assumes "individual_or_once s0 = IO_FIRST" and "number ws0 = 0"
      and "run cpi s0 ws0 (self0, h0) = Inr ((self1, h1), out0)"
      and "individual_or_once s = IO_FIRST" and "number ws \<noteq> 0"
      and "run cpi s ws (self1, h) = Inr ((self2, h2), out)"
  shows "first_cropping self1 = Some (res_cropping out0) \<and>
         first_crop_mask self1 = Some (res_mask out0) \<and>
         self2 = self1 \<and>
         (\<exists>orig_image.
            get_image ws (image_name s) = Some orig_image \<and>
            (shape_of (res_cropping out0) = shape2 (h ! pixel_data orig_image) \<longrightarrow>
               res_cropping out = res_cropping out0 \<and>
               res_mask out = res_mask out0 \<and>
               \<not> size_changed_warning out \<and>
               res_image out =
                 (if shape s = SH_OBJECTS
                  then ObjectsImage (res_pixel_data out) None orig_image
                  else MaskedImage (res_pixel_data out) (res_mask out0) orig_image
                         (res_cropping out0))) \<and>
            (shape_of (res_cropping out0) \<noteq> shape2 (h ! pixel_data orig_image) \<longrightarrow>
               size_changed_warning out \<and>
               run cpi (s\<lparr>individual_or_once := IO_INDIVIDUALLY\<rparr>) ws (self1, h) =
                 Inr ((self1, h2), out\<lparr>size_changed_warning := False\<rparr>)))"
proof (rule run_Inr[OF assms(6)])
  fix orig_image :: cp_image and reused c mask0 masking_objects h1' cropped mask2
  let ?pd = "h ! pixel_data orig_image"
  let ?c0 = "res_cropping out0"
  let ?m0 = "res_mask out0"
  assume oi: "get_image ws (image_name s) = Some orig_image"
    and re: "reused_cropping s ws self1 ?pd = Inr reused"
    and st: "(case reused of
        Some c \<Rightarrow> Inr (c, first_crop_mask self1, None, h)
      | None \<Rightarrow>
          (case compute_cropping s ws orig_image h of
             Inl e \<Rightarrow> Inl e
           | Inr (c, masking_objects, h) \<Rightarrow> Inr (c, None, masking_objects, h))) =
     Inr (c, mask0, masking_objects, h1')"
    and cr: "crop_pixel_data cpi (remove_rows_and_columns s) (pixel_data orig_image)
               c mask0 h1' = Inr (cropped, mask2, h2)"
    and self2: "self2 = (if individual_or_once s = IO_FIRST \<and> number ws = 0
              then self1\<lparr>first_cropping := Some c, first_crop_mask := Some mask2\<rparr>
              else self1)"
    and out: "out = \<lparr>res_pixel_data = cropped, res_cropping = c, res_mask = mask2,
            res_image = (if shape s = SH_OBJECTS
                         then ObjectsImage cropped masking_objects orig_image
                         else MaskedImage cropped mask2 orig_image c),
            area_retained_after_cropping = real (np_sum c) * (get_pixel_size ws)\<^sup>2,
            original_image_area =
              real (prod_list (shape2 ?pd)) * (get_pixel_size ws)\<^sup>2,
            size_changed_warning =
              (reused = None \<and> individual_or_once s = IO_FIRST \<and> number ws \<noteq> 0)\<rparr>"
  note saved = run_saves[OF assms(1-3)]
  have same: "self2 = self1" using self2 assms(5) by simp
  have reused: "reused = (if shape_of ?c0 \<noteq> shape2 ?pd then None else Some ?c0)"
    using re assms(4,5) saved(1) by (simp add: reused_cropping_def split: if_splits)
  have match: "res_cropping out = ?c0 \<and> res_mask out = ?m0 \<and> \<not> size_changed_warning out \<and>
               res_image out =
                 (if shape s = SH_OBJECTS
                  then ObjectsImage (res_pixel_data out) None orig_image
                  else MaskedImage (res_pixel_data out) ?m0 orig_image ?c0)"
    if eq: "shape_of ?c0 = shape2 ?pd"
  proof -
    have r: "reused = Some ?c0" using reused eq by simp
    from st have v: "c = ?c0" "mask0 = Some ?m0" "masking_objects = None" "h1' = h"
      unfolding r using saved(2) by simp_all
    have "mask2 = ?m0" using cr unfolding v by (rule crop_pixel_data_keeps_mask)
    then show ?thesis by (simp add: out v r)
  qed
  have mismatch: "size_changed_warning out \<and>
               run cpi (s\<lparr>individual_or_once := IO_INDIVIDUALLY\<rparr>) ws (self1, h) =
                 Inr ((self1, h2), out\<lparr>size_changed_warning := False\<rparr>)"
    if ne: "shape_of ?c0 \<noteq> shape2 ?pd"
  proof -
    have r: "reused = None" using reused ne by simp
    have w: "size_changed_warning out" using assms(4,5) by (simp add: out r)
    obtain t where t: "compute_cropping s ws orig_image h = Inr t"
      using st unfolding r by (cases "compute_cropping s ws orig_image h") simp_all
    have t': "t = (c, masking_objects, h1')" "mask0 = None"
      using st unfolding r t by (cases t; simp)+
    have "run cpi (s\<lparr>individual_or_once := IO_INDIVIDUALLY\<rparr>) ws (self1, h) =
                 Inr ((self1, h2), out\<lparr>size_changed_warning := False\<rparr>)"
      using oi t cr assms(5) unfolding t'
      by (simp add: run_def Let_def reused_cropping_def compute_cropping_individually out r)
    with w show ?thesis by simp
  qed
  show ?thesis
    apply (intro conjI)
       apply (rule saved(1))
      apply (rule saved(2))
     apply (rule same)
    apply (rule exI[of _ orig_image])
    apply (rule conjI)
     apply (rule oi)
    apply (rule conjI)
     apply (rule impI, erule match)
    apply (rule impI, erule mismatch)
    done
qed


section \<open>Evaluation on concrete inputs\<close>

lemmas example_defs = first_rectangle_def first_ellipse_def rectangle_2_8_def
  whole_rectangle_def colour_2_2_def
  default_settings_def cycle_def dna_image_def no_first_def grid_10_10_def grid_5_5_def

lemma first_cycle_example:
  "\<exists>h1 out0. run no_cpimage first_rectangle (cycle 0) (no_first, [grid_10_10]) =
      Inr ((\<lparr>first_cropping = Some (get_rectangle_cropping first_rectangle grid_10_10),
             first_crop_mask = Some (get_rectangle_cropping first_rectangle grid_10_10)\<rparr>, h1),
           out0)"
  by (simp add: run_def Let_def reused_cropping_def compute_cropping_def
      crop_pixel_data_RM_NO rect_dims example_defs)

lemma second_cycle_example:
  "\<exists>self2 h2 out.
     run no_cpimage first_ellipse (cycle 1)
       (\<lparr>first_cropping = Some (get_rectangle_cropping first_rectangle grid_10_10),
         first_crop_mask = Some (get_rectangle_cropping first_rectangle grid_10_10)\<rparr>,
        [grid_10_10]) = Inr ((self2, h2), out)"
  by (simp add: run_def Let_def reused_cropping_def shape_of_def shape2_def
      crop_pixel_data_RM_NO rect_dims example_defs)

lemma second_cycle_other_size:
  "\<exists>self2 h2 out.
     run no_cpimage first_rectangle (cycle 1)
       (\<lparr>first_cropping = Some (get_rectangle_cropping first_rectangle grid_10_10),
         first_crop_mask = Some (get_rectangle_cropping first_rectangle grid_10_10)\<rparr>,
        [grid_5_5]) = Inr ((self2, h2), out)"
  by (simp add: run_def Let_def reused_cropping_def shape_of_def shape2_def compute_cropping_def
      crop_pixel_data_RM_NO rect_dims example_defs)


lemma first_rectangle_sum:
  "np_sum (get_rectangle_cropping first_rectangle grid_10_10) = 36"
  by code_simp

lemma first_rectangle_shape:
  "shape_of (get_rectangle_cropping first_rectangle grid_10_10) = [10, 10]"
  by (simp only: rect_shape) (simp add: shape_of_def grid_10_10_def)

theorem first_cropping_reused_witness:
  "\<exists>self1 h1 out0 self2 h2 out self3 h3 out'.
     run no_cpimage first_rectangle (cycle 0) (no_first, [grid_10_10]) =
       Inr ((self1, h1), out0) \<and>
     run no_cpimage first_ellipse (cycle 1) (self1, [grid_10_10]) = Inr ((self2, h2), out) \<and>
     self2 = self1 \<and> res_cropping out = res_cropping out0 \<and> res_mask out = res_mask out0 \<and>
     run no_cpimage first_rectangle (cycle 1) (self1, [grid_5_5]) = Inr ((self3, h3), out') \<and>
     self3 = self1 \<and> size_changed_warning out'"
proof -
  let ?c0 = "get_rectangle_cropping first_rectangle grid_10_10"
  let ?self1 = "\<lparr>first_cropping = Some ?c0, first_crop_mask = Some ?c0\<rparr>"
  obtain h1 out0 where
    r0: "run no_cpimage first_rectangle (cycle 0) (no_first, [grid_10_10]) =
           Inr ((?self1, h1), out0)"
    using first_cycle_example by blast
  obtain self2 h2 out where
    r1: "run no_cpimage first_ellipse (cycle 1) (?self1, [grid_10_10]) = Inr ((self2, h2), out)"
    using second_cycle_example by blast
  obtain self3 h3 out' where
    r2: "run no_cpimage first_rectangle (cycle 1) (?self1, [grid_5_5]) =
           Inr ((self3, h3), out')"
    using second_cycle_other_size by blast
  have io: "individual_or_once first_rectangle = IO_FIRST"
    "individual_or_once first_ellipse = IO_FIRST"
    by (simp_all add: example_defs)
  have n: "number (cycle 0) = 0" "number (cycle 1) \<noteq> 0" by (simp_all add: cycle_def)
  have im: "get_image (cycle 1) (image_name first_ellipse) = Some dna_image"
    "get_image (cycle 1) (image_name first_rectangle) = Some dna_image"
    by (simp_all add: example_defs)
  have sh: "shape2 ([grid_10_10] ! pixel_data dna_image) = [10, 10]"
    "shape2 ([grid_5_5] ! pixel_data dna_image) = [5, 5]"
    by (simp_all add: shape2_def shape_of_def example_defs)
  have a: "self2 = ?self1 \<and> res_cropping out = res_cropping out0 \<and>
           res_mask out = res_mask out0"
    using first_cropping_reused [OF io(1) n(1) r0 io(2) n(2) r1] im(1) sh(1)
      first_rectangle_shape by auto
  have b: "self3 = ?self1 \<and> size_changed_warning out'"
    using first_cropping_reused [OF io(1) n(1) r0 io(1) n(2) r2] im(2) sh(2)
      first_rectangle_shape by auto
  show ?thesis using r0 r1 r2 a b by blast
qed

theorem area_measurements_witness:
  "\<exists>st' out. run no_cpimage first_rectangle (cycle 0) (no_first, [grid_10_10]) =
             Inr (st', out) \<and>
           area_retained_after_cropping out = 144 \<and> original_image_area out = 400"
proof -
  let ?c0 = "get_rectangle_cropping first_rectangle grid_10_10"
  obtain self1 h1 out0 where
    r0: "run no_cpimage first_rectangle (cycle 0) (no_first, [grid_10_10]) =
           Inr ((self1, h1), out0)"
    using first_cycle_example by blast
  have im: "get_image (cycle 0) (image_name first_rectangle) = Some dna_image"
    by (simp add: example_defs)
  have c: "compute_cropping first_rectangle (cycle 0) dna_image [grid_10_10] =
             Inr (?c0, None, [grid_10_10])"
    by (simp add: compute_cropping_def example_defs)
  have d: "height ([grid_10_10] ! pixel_data dna_image) = 10"
    "width ([grid_10_10] ! pixel_data dna_image) = 10" "get_pixel_size (cycle 0) = 2"
    "number (cycle 0) = 0"
    by (simp_all add: example_defs)
  from area_measurements [OF r0]
  have "area_retained_after_cropping out0 = 144 \<and> original_image_area out0 = 400"
    using im c d first_rectangle_sum by auto
  with r0 show ?thesis by blast
qed

theorem crop_without_removal_witness:
  "\<exists>cropped h'.
     crop_pixel_data no_cpimage RM_NO 0
       (get_rectangle_cropping first_rectangle grid_10_10) None [grid_10_10] =
       Inr (cropped, get_rectangle_cropping first_rectangle grid_10_10, h') \<and>
     px (h' ! cropped) 0 0 0 = 0 \<and> px (h' ! cropped) 2 2 0 = 1 \<and>
     h' ! 0 = grid_10_10 \<and> cropped \<noteq> 0"
proof -
  let ?c0 = "get_rectangle_cropping first_rectangle grid_10_10"
  have l: "(0::nat) < length [grid_10_10]" by simp
  have d: "height ?c0 = height ([grid_10_10] ! 0)" "width ?c0 = width ([grid_10_10] ! 0)"
    "channels ?c0 = None \<or> channels ?c0 = channels ([grid_10_10] ! 0)"
    by (simp_all add: rect_dims)
  have v: "\<not> px ?c0 0 0 0" "px ?c0 2 2 0" "channels ?c0 = None"
    "height grid_10_10 = 10" "width grid_10_10 = 10" "px grid_10_10 2 2 0 = 1"
    by code_simp+
  from crop_without_removal [OF l d, of no_cpimage None]
  show ?thesis using v by auto
qed

text \<open>
  Claim C9. The claim is that the mask always has the shape \<open>H x W\<close> of the
  grid. For a colour image of shape \<open>(2, 2, 3)\<close> the rectangle cropping is built
  with \<open>np.ones(pixel_data.shape)\<close> and has the shape \<open>(2, 2, 3)\<close>, while
  \<open>pixel_data.shape[:2]\<close> is \<open>(2, 2)\<close>; the cycle then reports a retained area of
  12 entries (48 with a pixel area of 4), larger than the original area of 4
  pixels (16).
\<close>

theorem rectangle_cropping_of_colour_image:
  "shape_of (get_rectangle_cropping whole_rectangle colour_2_2) = [2, 2, 3] \<and>
   shape2 colour_2_2 = [2, 2] \<and>
   (\<exists>st' out. run no_cpimage whole_rectangle (cycle 0) (no_first, [colour_2_2]) =
                 Inr (st', out) \<and>
               shape_of (res_cropping out) = [2, 2, 3] \<and>
               area_retained_after_cropping out = 48 \<and> original_image_area out = 16)"
proof -
  have 1: "shape_of (get_rectangle_cropping whole_rectangle colour_2_2) = [2, 2, 3]"
    by (simp only: rect_shape) (simp add: shape_of_def colour_2_2_def)
  have 2: "shape2 colour_2_2 = [2, 2]"
    by (simp add: shape2_def shape_of_def colour_2_2_def)
  have s: "np_sum (get_rectangle_cropping whole_rectangle colour_2_2) = 12"
    by code_simp
  have "\<exists>st' out. run no_cpimage whole_rectangle (cycle 0) (no_first, [colour_2_2]) =
                 Inr (st', out) \<and>
               res_cropping out = get_rectangle_cropping whole_rectangle colour_2_2 \<and>
               area_retained_after_cropping out =
                 real (np_sum (get_rectangle_cropping whole_rectangle colour_2_2)) * 4 \<and>
               original_image_area out = 16"
    by (simp add: run_def Let_def reused_cropping_def compute_cropping_def
        crop_pixel_data_RM_NO rect_dims shape2_def shape_of_def example_defs)
  then show ?thesis using 1 2 s by auto
qed

section \<open>The ellipse mask\<close>












end
